theory Spec2Isabelle
  imports Main "HOL-Library.AList"
begin

section \<open>Python string operations used by the scraper\<close>

text \<open>
  Python strings are modelled as \<^typ>\<open>string\<close>, one \<^typ>\<open>char\<close> per code point; the
  model therefore covers text whose code points are below 256.
\<close>

text \<open>\<^verbatim>\<open>sub in s\<close>: \<open>sub\<close> occurs in \<open>s\<close> as a contiguous run.\<close>

fun contains :: "string \<Rightarrow> string \<Rightarrow> bool" where
  "contains sub [] = (sub = [])"
| "contains sub (c # cs) = (take (length sub) (c # cs) = sub \<or> contains sub cs)"

text \<open>
  \<^verbatim>\<open>s.split(sep)\<close> for a non-empty separator: scan from the left, cut at every occurrence
  of \<open>sep\<close> and resume after it. \<open>acc\<close> holds the current piece, reversed. Python raises
  \<^verbatim>\<open>ValueError\<close> on an empty separator; both call sites pass a non-empty literal, and the
  model returns no piece at all there (which \<^verbatim>\<open>split\<close> never does).
\<close>

fun split_from :: "string \<Rightarrow> string \<Rightarrow> string \<Rightarrow> string list" where
  "split_from sep acc [] = [rev acc]"
| "split_from sep acc (c # cs) =
     (if take (length sep) (c # cs) = sep \<and> sep \<noteq> []
      then rev acc # split_from sep [] (drop (length sep) (c # cs))
      else split_from sep (c # acc) cs)"

definition py_split :: "string \<Rightarrow> string \<Rightarrow> string list" where
  "py_split sep s = (if sep = [] then [] else split_from sep [] s)"

text \<open>
  \<^verbatim>\<open>str.isspace\<close> on one character, for code points below 256: tab to carriage return,
  the four separators 28 to 31, space, NEL (133) and the no-break space (160).
\<close>

definition isspace :: "char \<Rightarrow> bool" where
  "isspace c = ((of_char c :: nat) \<in> {9, 10, 11, 12, 13, 28, 29, 30, 31, 32, 133, 160})"

text \<open>\<^verbatim>\<open>s.strip()\<close>: drop the whitespace at both ends.\<close>

definition py_strip :: "string \<Rightarrow> string" where
  "py_strip s = rev (dropWhile isspace (rev (dropWhile isspace s)))"

text \<open>\<^verbatim>\<open>str(n)\<close> for an integer, as the f-string of the page URL renders it.\<close>

definition digit_char :: "nat \<Rightarrow> char" where
  "digit_char d = ''0123456789'' ! d"

fun str_nat :: "nat \<Rightarrow> string" where
  "str_nat n = (if n < 10 then [digit_char n] else str_nat (n div 10) @ [digit_char (n mod 10)])"

definition str_int :: "int \<Rightarrow> string" where
  "str_int i = (if i < 0 then CHR ''-'' # str_nat (nat (- i)) else str_nat (nat i))"

declare str_nat.simps [simp del]

section \<open>Dictionaries\<close>

text \<open>
  A Python \<^verbatim>\<open>dict\<close> with string keys and values is an association list in insertion
  order with distinct keys: \<^verbatim>\<open>d[k] = v\<close> is \<^const>\<open>AList.update\<close>, and
  \<^verbatim>\<open>d.get(k, default)\<close> is \<open>dict_get\<close>.
\<close>

type_synonym dict = "(string \<times> string) list"

definition dict_get :: "dict \<Rightarrow> string \<Rightarrow> string \<Rightarrow> string" where
  "dict_get d k dflt = (case map_of d k of Some v \<Rightarrow> v | None \<Rightarrow> dflt)"

section \<open>Parsed documents\<close>

text \<open>
  The scraper reads a parsed document only through CSS queries, so a document is modelled
  by the answers to the queries the code makes. An entry block (\<^verbatim>\<open>div.quote\<close>) answers
  \<^verbatim>\<open>select_one\<close> for \<^verbatim>\<open>span.text\<close> and \<^verbatim>\<open>small.author\<close> with the text of the first
  match, and for \<^verbatim>\<open>span a\<close> with the attributes of the first match; \<open>None\<close> is no match.
\<close>

record element =
  span_text :: "string option"
  small_author :: "string option"
  span_a :: "dict option"

text \<open>
  A page answers \<^verbatim>\<open>select('div.quote')\<close> with its entry blocks in document order, gives
  the text of each \<^verbatim>\<open>p\<close> element in document order (from which
  \<^verbatim>\<open>p:-soup-contains("Born:")\<close> selects), and answers
  \<^verbatim>\<open>select_one('div.author-description')\<close> with the text of the first match.
\<close>

record soup =
  div_quote :: "element list"
  p_texts :: "string list"
  div_author_description :: "string option"

section \<open>The detail extractor\<close>

text \<open>\<^verbatim>\<open>soup.select_one('p:-soup-contains("Born:")')\<close>: the text of the first \<^verbatim>\<open>p\<close> that contains the label.\<close>

definition select_born :: "soup \<Rightarrow> string option" where
  "select_born sp = find (contains ''Born:'') (p_texts sp)"

text \<open>Lines 42 to 61 of \<^verbatim>\<open>scrape_author_info\<close>: the dictionary built from a parsed page.\<close>

definition author_info_of :: "soup \<Rightarrow> dict" where
  "author_info_of sp =
     (let author_info = [];
          born_info = select_born sp;
          author_info =
            (case born_info of
               None \<Rightarrow> author_info
             | Some born_text \<Rightarrow>
                 (let born_info_parts = py_split '': '' born_text in
                  if length born_info_parts > 1 then
                    (let born_info_text = born_info_parts ! 1;
                         birth_date_parts = py_split '' in '' born_info_text in
                     if length birth_date_parts > 1 then
                       AList.update ''birthplace'' (py_strip (birth_date_parts ! 1))
                         (AList.update ''birthdate'' (py_strip (birth_date_parts ! 0)) author_info)
                     else AList.update ''birthdate'' (py_strip born_info_text) author_info)
                  else author_info));
          description = div_author_description sp
      in AList.update ''description'' (case description of Some t \<Rightarrow> t | None \<Rightarrow> []) author_info)"

section \<open>The fetcher\<close>

text \<open>
  The network is an oracle: \<open>net t url\<close> is the outcome of the GET request number \<open>t\<close> of
  the run when it is sent to \<open>url\<close>: \<open>Some\<close> parsed response, or \<open>None\<close> when
  \<^verbatim>\<open>session.get\<close> or \<^verbatim>\<open>raise_for_status\<close> raises. The world records the number of
  requests sent so far, the URL of every call of \<^verbatim>\<open>make_request\<close>, and every sleep of
  the retry decorator in milliseconds.
\<close>

type_synonym net = "nat \<Rightarrow> string \<Rightarrow> soup option"

record world =
  tick :: nat
  calls :: "string list"
  sleeps :: "nat list"

text \<open>
  The wait of \<^verbatim>\<open>@retry(wait_exponential_multiplier=2000, wait_exponential_max=10000)\<close>
  after the failed attempt number \<open>n\<close> (counted from 1): the decorator's library computes
  \<open>2 ^ n\<close> times the multiplier, capped at the maximum.
\<close>

definition exponential_sleep :: "nat \<Rightarrow> nat" where
  "exponential_sleep previous_attempt_number =
     (let result = 2000 * 2 ^ previous_attempt_number
      in if result > 10000 then 10000 else result)"

text \<open>
  The decorator's loop around the body of \<^verbatim>\<open>make_request\<close>. No stop condition is
  passed to \<^verbatim>\<open>@retry\<close>, so an attempt that raises is followed by a sleep and another
  attempt, without limit; not returning is the value \<open>None\<close>.
\<close>

partial_function (option) retry_call :: "net \<Rightarrow> string \<Rightarrow> nat \<Rightarrow> world \<Rightarrow> (soup \<times> world) option" where
  "retry_call nw url attempt_number w =
     (case nw (tick w) url of
        Some response \<Rightarrow> Some (response, w\<lparr>tick := Suc (tick w)\<rparr>)
      | None \<Rightarrow>
          retry_call nw url (Suc attempt_number)
            (w\<lparr>tick := Suc (tick w), sleeps := sleeps w @ [exponential_sleep attempt_number]\<rparr>))"

definition make_request :: "net \<Rightarrow> string \<Rightarrow> world \<Rightarrow> (soup \<times> world) option" where
  "make_request nw url w = retry_call nw url 1 (w\<lparr>calls := calls w @ [url]\<rparr>)"

definition scrape_author_info :: "net \<Rightarrow> string \<Rightarrow> world \<Rightarrow> (dict \<times> world) option" where
  "scrape_author_info nw url w =
     (case make_request nw url w of
        None \<Rightarrow> None
      | Some (sp, w') \<Rightarrow> Some (author_info_of sp, w'))"

section \<open>The list extractor and the crawl\<close>

definition BASE_URL :: string where
  "BASE_URL = ''https://quotes.toscrape.com''"

text \<open>The argument is the answer of \<^verbatim>\<open>element.select_one(selector)\<close>.\<close>

definition get_text :: "string option \<Rightarrow> string" where
  "get_text text_element = (case text_element of Some t \<Rightarrow> t | None \<Rightarrow> [])"

definition get_href :: "dict option \<Rightarrow> string" where
  "get_href anchor_element =
     (case anchor_element of Some attrs \<Rightarrow> dict_get attrs ''href'' [] | None \<Rightarrow> [])"

text \<open>The dictionary literal of lines 96 to 103.\<close>

definition quote_info :: "string \<Rightarrow> string \<Rightarrow> string \<Rightarrow> dict \<Rightarrow> dict" where
  "quote_info quote_text author bio_href author_info =
     [(''Quote'', quote_text),
      (''Author'', author),
      (''Bio Href'', bio_href),
      (''Birthdate'', dict_get author_info ''birthdate'' []),
      (''Birthplace'', dict_get author_info ''birthplace'' []),
      (''Description'', dict_get author_info ''description'' [])]"

text \<open>
  The inner loop of \<^verbatim>\<open>scrape_quotes\<close> over the entry blocks of one page. \<open>urljoin\<close> is
  the standard library's URL resolution, a parameter of the model.
\<close>

fun quotes_of_elements ::
  "net \<Rightarrow> (string \<Rightarrow> string \<Rightarrow> string) \<Rightarrow> element list \<Rightarrow> dict list \<Rightarrow> world \<Rightarrow> (dict list \<times> world) option" where
  "quotes_of_elements nw urljoin [] quotes w = Some (quotes, w)"
| "quotes_of_elements nw urljoin (el # els) quotes w =
     (let quote_text = get_text (span_text el);
          author = get_text (small_author el);
          bio_href = get_href (span_a el);
          author_info_url = urljoin BASE_URL bio_href
      in case scrape_author_info nw author_info_url w of
           None \<Rightarrow> None
         | Some (author_info, w') \<Rightarrow>
             quotes_of_elements nw urljoin els
               (quotes @ [quote_info quote_text author bio_href author_info]) w')"

definition page_url :: "string \<Rightarrow> int \<Rightarrow> string" where
  "page_url url page = url @ ''/page/'' @ str_int page @ ''/''"

text \<open>The outer loop over the page numbers.\<close>

fun quotes_of_pages ::
  "net \<Rightarrow> (string \<Rightarrow> string \<Rightarrow> string) \<Rightarrow> string \<Rightarrow> int list \<Rightarrow> dict list \<Rightarrow> world \<Rightarrow> (dict list \<times> world) option" where
  "quotes_of_pages nw urljoin url [] quotes w = Some (quotes, w)"
| "quotes_of_pages nw urljoin url (page # pages) quotes w =
     (case make_request nw (page_url url page) w of
        None \<Rightarrow> None
      | Some (sp, w') \<Rightarrow>
          (case quotes_of_elements nw urljoin (div_quote sp) quotes w' of
             None \<Rightarrow> None
           | Some (quotes', w'') \<Rightarrow> quotes_of_pages nw urljoin url pages quotes' w''))"

text \<open>\<^verbatim>\<open>range(1, num_pages + 1)\<close> is the list \<open>[1..num_pages]\<close>, empty when \<open>num_pages < 1\<close>.\<close>

definition scrape_quotes ::
  "net \<Rightarrow> (string \<Rightarrow> string \<Rightarrow> string) \<Rightarrow> string \<Rightarrow> int \<Rightarrow> world \<Rightarrow> (dict list \<times> world) option" where
  "scrape_quotes nw urljoin url num_pages w = quotes_of_pages nw urljoin url [1..num_pages] [] w"

text \<open>The column names \<^verbatim>\<open>write_quotes_to_csv\<close> gives to the writer.\<close>

definition fieldnames :: "string list" where
  "fieldnames = [''Quote'', ''Author'', ''Bio Href'', ''Birthdate'', ''Birthplace'', ''Description'']"

section \<open>Sites and networks\<close>

text \<open>
  A site gives every URL one fixed page. A network serves a site when every answer it
  gives is the site's page for that URL and every URL answers again after any number of
  failures: failures are transient.
\<close>

definition serves :: "net \<Rightarrow> (string \<Rightarrow> soup) \<Rightarrow> bool" where
  "serves nw site \<longleftrightarrow>
     (\<forall>t url sp. nw t url = Some sp \<longrightarrow> sp = site url) \<and>
     (\<forall>t url. \<exists>t'\<ge>t. nw t' url \<noteq> None)"

text \<open>The network without failures, and one where every other request fails.\<close>

definition always :: "(string \<Rightarrow> soup) \<Rightarrow> net" where
  "always site = (\<lambda>t url. Some (site url))"

definition flaky :: "(string \<Rightarrow> soup) \<Rightarrow> net" where
  "flaky site = (\<lambda>t url. if even t then None else Some (site url))"

text \<open>What a crawl of a site yields and requests, entry by entry and page by page.\<close>

definition detail_url :: "(string \<Rightarrow> string \<Rightarrow> string) \<Rightarrow> element \<Rightarrow> string" where
  "detail_url urljoin el = urljoin BASE_URL (get_href (span_a el))"

definition record_of :: "(string \<Rightarrow> soup) \<Rightarrow> (string \<Rightarrow> string \<Rightarrow> string) \<Rightarrow> element \<Rightarrow> dict" where
  "record_of site urljoin el =
     quote_info (get_text (span_text el)) (get_text (small_author el)) (get_href (span_a el))
       (author_info_of (site (detail_url urljoin el)))"

definition page_records ::
  "(string \<Rightarrow> soup) \<Rightarrow> (string \<Rightarrow> string \<Rightarrow> string) \<Rightarrow> string \<Rightarrow> int \<Rightarrow> dict list" where
  "page_records site urljoin url page =
     map (record_of site urljoin) (div_quote (site (page_url url page)))"

definition page_calls ::
  "(string \<Rightarrow> soup) \<Rightarrow> (string \<Rightarrow> string \<Rightarrow> string) \<Rightarrow> string \<Rightarrow> int \<Rightarrow> string list" where
  "page_calls site urljoin url page =
     page_url url page # map (detail_url urljoin) (div_quote (site (page_url url page)))"

section \<open>Example inputs\<close>

text \<open>
  \<^verbatim>\<open>urljoin\<close> on the references the example site uses, against a base without a path:
  an empty reference gives the base, an absolute path is put after it.
\<close>

definition urljoin_site :: "string \<Rightarrow> string \<Rightarrow> string" where
  "urljoin_site base url = (if url = [] then base else base @ url)"

definition w0 :: world where
  "w0 = \<lparr>tick = 0, calls = [], sleeps = []\<rparr>"

definition blank_page :: soup where
  "blank_page = \<lparr>div_quote = [], p_texts = [], div_author_description = None\<rparr>"

definition full_entry :: element where
  "full_entry = \<lparr>span_text = Some ''To be'', small_author = Some ''Ann'',
                  span_a = Some [(''href'', ''/author/Ann'')]\<rparr>"

definition bare_entry :: element where
  "bare_entry = \<lparr>span_text = Some ''Or not'', small_author = None, span_a = None\<rparr>"

definition last_entry :: element where
  "last_entry = \<lparr>span_text = Some ''Fin'', small_author = Some ''Bob'', span_a = Some []\<rparr>"

definition demo_site :: "string \<Rightarrow> soup" where
  "demo_site url =
     (if url = ''https://quotes.toscrape.com/page/1/''
      then \<lparr>div_quote = [full_entry, bare_entry], p_texts = [], div_author_description = None\<rparr>
      else if url = ''https://quotes.toscrape.com/page/2/''
      then \<lparr>div_quote = [last_entry], p_texts = [], div_author_description = None\<rparr>
      else if url = ''https://quotes.toscrape.com/author/Ann''
      then \<lparr>div_quote = [], p_texts = [''Ann'', ''Born: September 16, 1977 in New York City''],
             div_author_description = Some '' Wrote. ''\<rparr>
      else blank_page)"

text \<open>A network that never answers, one that answers from request \<open>k\<close> on, and one on which page 2 is down.\<close>

definition net_down :: net where
  "net_down = (\<lambda>t url. None)"

definition net_up_from :: "nat \<Rightarrow> net" where
  "net_up_from k = (\<lambda>t url. if t < k then None else Some blank_page)"

definition net_page2_down :: net where
  "net_page2_down =
     (\<lambda>t url. if url = ''https://quotes.toscrape.com/page/2/'' then None else Some (demo_site url))"

text \<open>A detail page whose birth line holds the separator twice, and one with the bare year.\<close>

definition born_twice_page :: soup where
  "born_twice_page =
     \<lparr>div_quote = [], p_texts = [''Born: May 1, 1850 in Paris in France''],
      div_author_description = None\<rparr>"

definition born_year_page :: soup where
  "born_year_page = \<lparr>div_quote = [], p_texts = [''Born: 1977''], div_author_description = None\<rparr>"

text \<open>A detail page with whitespace around the birth date, the birthplace and the description.\<close>

definition padded_page :: soup where
  "padded_page =
     \<lparr>div_quote = [], p_texts = [''Born:  June 1, 1900  in  Rome ''],
      div_author_description = Some ''  A life.  ''\<rparr>"

section \<open>Strings: splitting and stripping\<close>

lemma split_from_absent:
  "\<not> contains sep s \<Longrightarrow> split_from sep acc s = [rev acc @ s]"
  by (induction s arbitrary: acc) auto

lemma split_from_first:
  assumes "sep \<noteq> []"
  shows "\<not> contains sep (a @ butlast sep) \<Longrightarrow>
         split_from sep acc (a @ sep @ b) = (rev acc @ a) # split_from sep [] b"
proof (induction a arbitrary: acc)
  case Nil
  from assms obtain c cs where sep: "sep = c # cs" by (cases sep) auto
  have "split_from sep acc (sep @ b) = rev acc # split_from sep [] b"
    unfolding sep by simp
  then show ?case by simp
next
  case (Cons x a)
  have len: "length sep \<le> length (x # a @ butlast sep)" by simp
  from Cons.prems have no: "take (length sep) (x # a @ butlast sep) \<noteq> sep"
    and rest: "\<not> contains sep (a @ butlast sep)" by auto
  have "x # a @ sep @ b = (x # a @ butlast sep) @ (last sep # b)"
    using assms by simp
  then have "take (length sep) (x # a @ sep @ b) = take (length sep) (x # a @ butlast sep)"
    using len by (metis append_Nil2 diff_is_0_eq' take_0 take_append)
  with no have "take (length sep) (x # a @ sep @ b) \<noteq> sep" by simp
  then have "split_from sep acc ((x # a) @ sep @ b) = split_from sep (x # acc) (a @ sep @ b)"
    by simp
  also have "\<dots> = (rev (x # acc) @ a) # split_from sep [] b"
    by (rule Cons.IH [OF rest])
  finally show ?case by simp
qed

lemma py_split_absent:
  "sep \<noteq> [] \<Longrightarrow> \<not> contains sep s \<Longrightarrow> py_split sep s = [s]"
  by (simp add: py_split_def split_from_absent)

lemma py_split_first:
  "sep \<noteq> [] \<Longrightarrow> \<not> contains sep (a @ butlast sep) \<Longrightarrow>
   py_split sep (a @ sep @ b) = a # py_split sep b"
  by (simp add: py_split_def split_from_first)

lemma py_strip_ends:
  assumes "py_strip s \<noteq> []"
  shows "\<not> isspace (hd (py_strip s))" and "\<not> isspace (last (py_strip s))"
proof -
  let ?u = "dropWhile isspace s"
  let ?r = "dropWhile isspace (rev ?u)"
  have v: "py_strip s = rev ?r" by (simp add: py_strip_def)
  with assms have r: "?r \<noteq> []" by simp
  then have "\<not> isspace (hd ?r)" by (rule hd_dropWhile)
  then show "\<not> isspace (last (py_strip s))" using r by (simp add: v last_rev)
  have "rev ?u = takeWhile isspace (rev ?u) @ ?r" by simp
  then have "?u = rev ?r @ rev (takeWhile isspace (rev ?u))"
    by (metis rev_append rev_rev_ident)
  then have u: "?u = py_strip s @ rev (takeWhile isspace (rev ?u))" by (simp add: v)
  with assms have "?u \<noteq> []" by (metis Nil_is_append_conv)
  then have "\<not> isspace (hd ?u)" by (rule hd_dropWhile)
  moreover have "hd ?u = hd (py_strip s)" using assms by (subst u) simp
  ultimately show "\<not> isspace (hd (py_strip s))" by simp
qed

lemma dropWhile_keeps:
  "xs \<noteq> [] \<Longrightarrow> \<not> P (hd xs) \<Longrightarrow> dropWhile P xs = xs"
  by (cases xs) auto

lemma py_strip_idem: "py_strip (py_strip s) = py_strip s"
proof (cases "py_strip s = []")
  case True
  have "py_strip [] = []" by (simp add: py_strip_def)
  with True show ?thesis by simp
next
  case False
  define v where "v = py_strip s"
  from py_strip_ends [OF False] have h: "\<not> isspace (hd v)" and l: "\<not> isspace (last v)"
    by (simp_all add: v_def)
  from False have ne: "v \<noteq> []" by (simp add: v_def)
  have head_ok: "dropWhile isspace v = v" using ne h by (rule dropWhile_keeps)
  have "hd (rev v) = last v" using ne by (simp add: hd_rev)
  with l ne have tail_ok: "dropWhile isspace (rev v) = rev v"
    by (intro dropWhile_keeps) simp_all
  have "py_strip v = rev (dropWhile isspace (rev (dropWhile isspace v)))"
    by (simp add: py_strip_def)
  also have "\<dots> = v" by (simp only: head_ok tail_ok rev_rev_ident)
  finally show ?thesis by (simp add: v_def)
qed

lemma split_from_nonempty: "split_from sep acc s \<noteq> []"
  by (induction s arbitrary: acc) auto

lemma split_from_present:
  "sep \<noteq> [] \<Longrightarrow> contains sep s \<Longrightarrow> 1 < length (split_from sep acc s)"
proof (induction s arbitrary: acc)
  case Nil
  then show ?case by simp
next
  case (Cons c cs)
  show ?case
  proof (cases "take (length sep) (c # cs) = sep")
    case True
    have "length (split_from sep [] (drop (length sep) (c # cs))) \<noteq> 0"
      using split_from_nonempty by simp
    with True Cons.prems(1) show ?thesis by simp
  next
    case False
    with Cons.prems have "contains sep cs" by simp
    from Cons.IH [OF Cons.prems(1) this] False show ?thesis by simp
  qed
qed

lemma py_split_length:
  assumes "sep \<noteq> []"
  shows "(1 < length (py_split sep s)) = contains sep s"
proof (cases "contains sep s")
  case True
  then show ?thesis
    using assms split_from_present [of sep s "[]"] by (simp add: py_split_def)
next
  case False
  then show ?thesis
    using assms split_from_absent [of sep s "[]"] by (simp add: py_split_def)
qed

lemma py_strip_decomp:
  "\<exists>l r. s = l @ py_strip s @ r \<and> list_all isspace l \<and> list_all isspace r"
proof -
  let ?u = "dropWhile isspace s"
  let ?k = "dropWhile isspace (rev ?u)"
  have "rev ?u = takeWhile isspace (rev ?u) @ ?k" by simp
  then have "?u = rev ?k @ rev (takeWhile isspace (rev ?u))"
    by (metis rev_append rev_rev_ident)
  then have u: "?u = py_strip s @ rev (takeWhile isspace (rev ?u))"
    by (simp add: py_strip_def)
  have "s = takeWhile isspace s @ ?u" by simp
  with u have "s = takeWhile isspace s @ py_strip s @ rev (takeWhile isspace (rev ?u))"
    by metis
  moreover have "list_all isspace (takeWhile isspace s)"
    by (auto simp: list_all_iff dest: set_takeWhileD)
  moreover have "list_all isspace (rev (takeWhile isspace (rev ?u)))"
    by (auto simp: list_all_iff dest: set_takeWhileD)
  ultimately show ?thesis by blast
qed

lemma py_strip_spec:
  "\<exists>l r. s = l @ py_strip s @ r \<and> list_all isspace l \<and> list_all isspace r \<and>
         (py_strip s \<noteq> [] \<longrightarrow> \<not> isspace (hd (py_strip s)) \<and> \<not> isspace (last (py_strip s)))"
  using py_strip_decomp [of s] py_strip_ends [of s] by blast

section \<open>The fetcher retries until an attempt succeeds\<close>

lemma retry_call_Some_hit:
  assumes "retry_call nw url n w = Some y"
  shows "\<exists>t. nw t url \<noteq> None"
proof (rule retry_call.raw_induct [where P = "\<lambda>nw url n w y. \<exists>t. nw t url \<noteq> None", OF _ assms])
  fix rc nw' url' n' w' y'
  assume IH: "\<And>nw url n w y. rc nw url n w = Some y \<Longrightarrow> \<exists>t. nw t url \<noteq> None"
    and eq: "(case nw' (tick w') url' of
        None \<Rightarrow> rc nw' url' (Suc n') (w'\<lparr>tick := Suc (tick w'), sleeps := sleeps w' @ [exponential_sleep n']\<rparr>)
      | Some response \<Rightarrow> Some (response, w'\<lparr>tick := Suc (tick w')\<rparr>)) = Some y'"
  show "\<exists>t. nw' t url' \<noteq> None"
  proof (cases "nw' (tick w') url'")
    case None
    with eq IH show ?thesis by simp
  next
    case (Some r)
    then show ?thesis by blast
  qed
qed

lemma retry_call_never:
  "\<forall>t. nw t url = None \<Longrightarrow> retry_call nw url n w = None"
  using retry_call_Some_hit [of nw url n w] by (cases "retry_call nw url n w") auto

lemma retry_call_first_success:
  "(\<forall>i<k. nw (tick w + i) url = None) \<Longrightarrow> nw (tick w + k) url = Some sp \<Longrightarrow>
   retry_call nw url n w =
     Some (sp, w\<lparr>tick := Suc (tick w + k), sleeps := sleeps w @ map exponential_sleep [n..<n + k]\<rparr>)"
proof (induction k arbitrary: w n)
  case 0
  then show ?case by (subst retry_call.simps) simp
next
  case (Suc k)
  let ?w = "w\<lparr>tick := Suc (tick w), sleeps := sleeps w @ [exponential_sleep n]\<rparr>"
  from Suc.prems(1) have first: "nw (tick w) url = None" by force
  have later: "\<forall>i<k. nw (tick ?w + i) url = None"
  proof (intro allI impI)
    fix i assume "i < k"
    then have "nw (tick w + Suc i) url = None" using Suc.prems(1) by blast
    then show "nw (tick ?w + i) url = None" by simp
  qed
  have hit: "nw (tick ?w + k) url = Some sp" using Suc.prems(2) by simp
  have "retry_call nw url n w = retry_call nw url (Suc n) ?w"
    by (subst retry_call.simps) (simp add: first)
  also have "\<dots> = Some (sp, ?w\<lparr>tick := Suc (tick ?w + k),
                 sleeps := sleeps ?w @ map exponential_sleep [Suc n..<Suc n + k]\<rparr>)"
    by (rule Suc.IH [OF later hit])
  finally have "retry_call nw url n w =
      Some (sp, w\<lparr>tick := Suc (tick w + Suc k),
                 sleeps := sleeps w @ map exponential_sleep (n # [Suc n..<Suc n + k])\<rparr>)"
    by simp
  moreover have "[n..<n + Suc k] = n # [Suc n..<Suc n + k]"
    by (simp add: upt_conv_Cons del: upt_Suc)
  ultimately show ?case by (simp del: upt_Suc)
qed

lemma make_request_serves:
  assumes "serves nw site"
  shows "\<exists>w'. make_request nw url w = Some (site url, w') \<and> calls w' = calls w @ [url]"
proof -
  let ?w = "w\<lparr>calls := calls w @ [url]\<rparr>"
  from assms obtain t' where t': "t' \<ge> tick ?w" "nw t' url \<noteq> None"
    unfolding serves_def by blast
  define k where "k = (LEAST k. nw (tick ?w + k) url \<noteq> None)"
  have ex: "nw (tick ?w + (t' - tick ?w)) url \<noteq> None" using t' by simp
  have hit: "nw (tick ?w + k) url \<noteq> None"
    unfolding k_def by (rule LeastI [of "\<lambda>k. nw (tick ?w + k) url \<noteq> None", OF ex])
  have before: "\<forall>i<k. nw (tick ?w + i) url = None"
    unfolding k_def using not_less_Least by blast
  from hit obtain sp where sp: "nw (tick ?w + k) url = Some sp" by blast
  with assms have "sp = site url" unfolding serves_def by blast
  with retry_call_first_success [where nw = nw and w = ?w and k = k and url = url and sp = sp and n = 1] before sp show ?thesis
    by (simp add: make_request_def)
qed

lemma make_request_always:
  "make_request (always site) url w =
     Some (site url, w\<lparr>tick := Suc (tick w), calls := calls w @ [url]\<rparr>)"
  using retry_call_first_success
    [where nw = "always site" and w = "w\<lparr>calls := calls w @ [url]\<rparr>" and k = 0
       and url = url and sp = "site url" and n = 1]
  by (simp add: make_request_def always_def)

lemma serves_always: "serves (always site) site"
  by (auto simp: serves_def always_def)

lemma serves_flaky: "serves (flaky site) site"
proof -
  have "\<exists>t'\<ge>t. odd t'" for t :: nat
    by (cases "even t") (auto intro: exI [of _ "Suc t"] exI [of _ t])
  then show ?thesis by (auto simp: serves_def flaky_def)
qed

section \<open>The crawl of a served site\<close>

lemma scrape_author_info_serves:
  assumes "serves nw site"
  shows "\<exists>w'. scrape_author_info nw url w = Some (author_info_of (site url), w') \<and>
              calls w' = calls w @ [url]"
  using make_request_serves [OF assms, of url w] by (auto simp: scrape_author_info_def)

lemma quotes_of_elements_serves:
  assumes "serves nw site"
  shows "\<exists>w'. quotes_of_elements nw urljoin els quotes w =
                 Some (quotes @ map (record_of site urljoin) els, w') \<and>
              calls w' = calls w @ map (detail_url urljoin) els"
proof (induction els arbitrary: quotes w)
  case Nil
  show ?case by simp
next
  case (Cons el els)
  obtain w1 where w1:
    "scrape_author_info nw (detail_url urljoin el) w =
       Some (author_info_of (site (detail_url urljoin el)), w1)"
    "calls w1 = calls w @ [detail_url urljoin el]"
    using scrape_author_info_serves [OF assms] by blast
  obtain w2 where w2:
    "quotes_of_elements nw urljoin els (quotes @ [record_of site urljoin el]) w1 =
       Some ((quotes @ [record_of site urljoin el]) @ map (record_of site urljoin) els, w2)"
    "calls w2 = calls w1 @ map (detail_url urljoin) els"
    using Cons.IH by blast
  from w1 w2 show ?case
    by (simp add: Let_def detail_url_def [symmetric] record_of_def [symmetric])
qed

lemma quotes_of_pages_serves:
  assumes "serves nw site"
  shows "\<exists>w'. quotes_of_pages nw urljoin url pages quotes w =
                 Some (quotes @ concat (map (page_records site urljoin url) pages), w') \<and>
              calls w' = calls w @ concat (map (page_calls site urljoin url) pages)"
proof (induction pages arbitrary: quotes w)
  case Nil
  show ?case by simp
next
  case (Cons page pages)
  let ?els = "div_quote (site (page_url url page))"
  obtain w1 where w1:
    "make_request nw (page_url url page) w = Some (site (page_url url page), w1)"
    "calls w1 = calls w @ [page_url url page]"
    using make_request_serves [OF assms] by blast
  obtain w2 where w2:
    "quotes_of_elements nw urljoin ?els quotes w1 =
       Some (quotes @ map (record_of site urljoin) ?els, w2)"
    "calls w2 = calls w1 @ map (detail_url urljoin) ?els"
    using quotes_of_elements_serves [OF assms] by blast
  obtain w3 where w3:
    "quotes_of_pages nw urljoin url pages (quotes @ page_records site urljoin url page) w2 =
       Some ((quotes @ page_records site urljoin url page) @
             concat (map (page_records site urljoin url) pages), w3)"
    "calls w3 = calls w2 @ concat (map (page_calls site urljoin url) pages)"
    using Cons.IH by blast
  have pr: "map (record_of site urljoin) ?els = page_records site urljoin url page"
    by (simp add: page_records_def)
  have pc: "page_calls site urljoin url page = page_url url page # map (detail_url urljoin) ?els"
    by (simp add: page_calls_def)
  from w1 w2 w3 show ?case
    by (simp add: pr pc)
qed

lemma scrape_quotes_serves:
  assumes "serves nw site"
  shows "\<exists>w'. scrape_quotes nw urljoin url num_pages w =
                 Some (concat (map (page_records site urljoin url) [1..num_pages]), w') \<and>
              calls w' = calls w @ concat (map (page_calls site urljoin url) [1..num_pages])"
  using quotes_of_pages_serves [OF assms, of urljoin url "[1..num_pages]" "[]" w]
  by (simp add: scrape_quotes_def)

section \<open>The dictionary of the detail extractor\<close>

lemma author_info_of_cases:
  "author_info_of sp =
     (case select_born sp of
        None \<Rightarrow> [(''description'', get_text (div_author_description sp))]
      | Some born_text \<Rightarrow>
          (if length (py_split '': '' born_text) > 1 then
             (if length (py_split '' in '' (py_split '': '' born_text ! 1)) > 1 then
                [(''birthdate'', py_strip (py_split '' in '' (py_split '': '' born_text ! 1) ! 0)),
                 (''birthplace'', py_strip (py_split '' in '' (py_split '': '' born_text ! 1) ! 1)),
                 (''description'', get_text (div_author_description sp))]
              else
                [(''birthdate'', py_strip (py_split '': '' born_text ! 1)),
                 (''description'', get_text (div_author_description sp))])
           else [(''description'', get_text (div_author_description sp))]))"
  by (simp add: author_info_of_def select_born_def get_text_def Let_def split: option.splits)

lemma author_info_keys:
  "map fst (author_info_of sp) = [''description''] \<or>
   map fst (author_info_of sp) = [''birthdate'', ''description''] \<or>
   map fst (author_info_of sp) = [''birthdate'', ''birthplace'', ''description'']"
  by (simp add: author_info_of_cases split: option.splits)

lemma author_info_stripped:
  "map_of (author_info_of sp) ''birthdate'' = Some v \<or>
   map_of (author_info_of sp) ''birthplace'' = Some v \<Longrightarrow> \<exists>raw. v = py_strip raw"
  by (auto simp: author_info_of_cases split: option.splits if_splits)

lemma author_info_description:
  "map_of (author_info_of sp) ''description'' = Some (get_text (div_author_description sp))"
  by (simp add: author_info_of_cases split: option.splits)

lemma author_info_no_born:
  "select_born sp = None \<Longrightarrow> author_info_of sp = [(''description'', get_text (div_author_description sp))]"
  by (simp add: author_info_of_cases)

lemma born_splits:
  "(Suc 0 < length (py_split '': '' s)) = contains '': '' s"
  "(Suc 0 < length (py_split '' in '' s)) = contains '' in '' s"
  using py_split_length [of "'': ''" s] py_split_length [of "'' in ''" s] by simp_all

lemma author_info_absent:
  "(map_of (author_info_of sp) ''birthdate'' = None) =
     (case select_born sp of None \<Rightarrow> True | Some born_text \<Rightarrow> \<not> contains '': '' born_text)"
  "(map_of (author_info_of sp) ''birthplace'' = None) =
     (case select_born sp of
        None \<Rightarrow> True
      | Some born_text \<Rightarrow>
          \<not> contains '': '' born_text \<or> \<not> contains '' in '' (py_split '': '' born_text ! 1))"
  by (auto simp: author_info_of_cases born_splits split: option.splits)

lemmas detail_eval =
  author_info_of_def select_born_def py_split_def py_strip_def isspace_def Let_def

section \<open>Claims about the detail extractor\<close>

text \<open>
  C9. For every detail document, the dictionary returned by the detail extractor has the
  key \<^verbatim>\<open>description\<close>, and it has the key \<^verbatim>\<open>birthplace\<close> only if it has the key
  \<^verbatim>\<open>birthdate\<close>.
\<close>

theorem author_info_keys_invariant:
  "''description'' \<in> dom (map_of (author_info_of sp)) \<and>
   (''birthplace'' \<in> dom (map_of (author_info_of sp)) \<longrightarrow>
    ''birthdate'' \<in> dom (map_of (author_info_of sp)))"
  using author_info_keys [of sp] by (auto simp: dom_map_of_conv_image_fst simp flip: set_map)

theorem author_info_keys_invariant_witness:
  "''description'' \<in> dom (map_of (author_info_of (demo_site ''https://quotes.toscrape.com/author/Ann''))) \<and>
   ''birthplace'' \<in> dom (map_of (author_info_of (demo_site ''https://quotes.toscrape.com/author/Ann''))) \<and>
   ''birthdate'' \<in> dom (map_of (author_info_of (demo_site ''https://quotes.toscrape.com/author/Ann'')))"
proof -
  have place: "''birthplace'' \<in> dom (map_of (author_info_of (demo_site ''https://quotes.toscrape.com/author/Ann'')))"
    by (simp add: demo_site_def detail_eval)
  with author_info_keys_invariant [of "demo_site ''https://quotes.toscrape.com/author/Ann''"]
  show ?thesis by blast
qed

text \<open>
  C10. For every detail document, the birth date the detail extractor returns is the
  first piece of the text after the label, split on " in ", with the whitespace at both
  ends removed and nothing else: the piece is whitespace, then the value, then
  whitespace, and the value neither starts nor ends with whitespace. The birthplace is
  the second piece, treated the same way. Either value is present only when the document
  has the piece, and stripping it again changes nothing. The description is the text of
  the description block as it stands, whitespace included, and the empty string without
  the block.
\<close>

theorem birth_fields_stripped_description_verbatim:
  "(select_born sp = Some born_text \<and> contains '': '' born_text \<longrightarrow>
      (\<exists>v l r. map_of (author_info_of sp) ''birthdate'' = Some v \<and>
         py_split '' in '' (py_split '': '' born_text ! 1) ! 0 = l @ v @ r \<and>
         list_all isspace l \<and> list_all isspace r \<and>
         (v \<noteq> [] \<longrightarrow> \<not> isspace (hd v) \<and> \<not> isspace (last v)))) \<and>
   (select_born sp = Some born_text \<and> contains '': '' born_text \<and>
    contains '' in '' (py_split '': '' born_text ! 1) \<longrightarrow>
      (\<exists>v l r. map_of (author_info_of sp) ''birthplace'' = Some v \<and>
         py_split '' in '' (py_split '': '' born_text ! 1) ! 1 = l @ v @ r \<and>
         list_all isspace l \<and> list_all isspace r \<and>
         (v \<noteq> [] \<longrightarrow> \<not> isspace (hd v) \<and> \<not> isspace (last v)))) \<and>
   (map_of (author_info_of sp) ''birthdate'' = Some v \<longrightarrow>
      (\<exists>txt. select_born sp = Some txt \<and> contains '': '' txt) \<and>
      py_strip v = v \<and> (v \<noteq> [] \<longrightarrow> \<not> isspace (hd v) \<and> \<not> isspace (last v))) \<and>
   (map_of (author_info_of sp) ''birthplace'' = Some v' \<longrightarrow>
      (\<exists>txt. select_born sp = Some txt \<and> contains '': '' txt \<and>
             contains '' in '' (py_split '': '' txt ! 1)) \<and>
      py_strip v' = v' \<and> (v' \<noteq> [] \<longrightarrow> \<not> isspace (hd v') \<and> \<not> isspace (last v'))) \<and>
   (div_author_description sp = Some t \<longrightarrow> map_of (author_info_of sp) ''description'' = Some t) \<and>
   (div_author_description sp = None \<longrightarrow> map_of (author_info_of sp) ''description'' = Some [])"
proof -
  let ?ai = "author_info_of sp"
  have stripped: "py_strip u = u \<and> (u \<noteq> [] \<longrightarrow> \<not> isspace (hd u) \<and> \<not> isspace (last u))"
    if "\<exists>raw. u = py_strip raw" for u
    using that py_strip_idem py_strip_ends by auto
  have date: "\<exists>v l r. map_of ?ai ''birthdate'' = Some v \<and>
         py_split '' in '' (py_split '': '' born_text ! 1) ! 0 = l @ v @ r \<and>
         list_all isspace l \<and> list_all isspace r \<and>
         (v \<noteq> [] \<longrightarrow> \<not> isspace (hd v) \<and> \<not> isspace (last v))"
    if h: "select_born sp = Some born_text \<and> contains '': '' born_text"
  proof (cases "contains '' in '' (py_split '': '' born_text ! 1)")
    case True
    with h have "map_of ?ai ''birthdate'' =
        Some (py_strip (py_split '' in '' (py_split '': '' born_text ! 1) ! 0))"
      by (simp add: author_info_of_cases born_splits)
    with py_strip_spec [of "py_split '' in '' (py_split '': '' born_text ! 1) ! 0"]
    show ?thesis by metis
  next
    case False
    then have one: "py_split '' in '' (py_split '': '' born_text ! 1) = [py_split '': '' born_text ! 1]"
      by (simp add: py_split_absent)
    from h False have "map_of ?ai ''birthdate'' = Some (py_strip (py_split '': '' born_text ! 1))"
      by (simp add: author_info_of_cases born_splits)
    with py_strip_spec [of "py_split '': '' born_text ! 1"] one
    show ?thesis by (metis nth_Cons_0)
  qed
  have place: "\<exists>v l r. map_of ?ai ''birthplace'' = Some v \<and>
         py_split '' in '' (py_split '': '' born_text ! 1) ! 1 = l @ v @ r \<and>
         list_all isspace l \<and> list_all isspace r \<and>
         (v \<noteq> [] \<longrightarrow> \<not> isspace (hd v) \<and> \<not> isspace (last v))"
    if h: "select_born sp = Some born_text \<and> contains '': '' born_text \<and>
           contains '' in '' (py_split '': '' born_text ! 1)"
  proof -
    from h have "map_of ?ai ''birthplace'' =
        Some (py_strip (py_split '' in '' (py_split '': '' born_text ! 1) ! 1))"
      by (simp add: author_info_of_cases born_splits)
    with py_strip_spec [of "py_split '' in '' (py_split '': '' born_text ! 1) ! 1"]
    show ?thesis by metis
  qed
  have date_src: "\<exists>txt. select_born sp = Some txt \<and> contains '': '' txt"
    if "map_of ?ai ''birthdate'' = Some v"
    using that author_info_absent(1) [of sp] by (cases "select_born sp") auto
  have place_src: "\<exists>txt. select_born sp = Some txt \<and> contains '': '' txt \<and>
             contains '' in '' (py_split '': '' txt ! 1)"
    if "map_of ?ai ''birthplace'' = Some v'"
    using that author_info_absent(2) [of sp] by (cases "select_born sp") auto
  have descr: "map_of ?ai ''description'' = Some (get_text (div_author_description sp))"
    by (rule author_info_description)
  show ?thesis
    using date place date_src place_src stripped [of v] stripped [of v']
      author_info_stripped [of sp v] author_info_stripped [of sp v'] descr
    by (auto simp: get_text_def)
qed

theorem birth_fields_stripped_description_verbatim_witness:
  "select_born padded_page = Some ''Born:  June 1, 1900  in  Rome '' \<and>
   contains '': '' ''Born:  June 1, 1900  in  Rome '' \<and>
   contains '' in '' (py_split '': '' ''Born:  June 1, 1900  in  Rome '' ! 1) \<and>
   py_split '' in '' (py_split '': '' ''Born:  June 1, 1900  in  Rome '' ! 1) ! 0 = '' June 1, 1900 '' \<and>
   py_split '' in '' (py_split '': '' ''Born:  June 1, 1900  in  Rome '' ! 1) ! 1 = '' Rome '' \<and>
   map_of (author_info_of padded_page) ''birthdate'' = Some ''June 1, 1900'' \<and>
   map_of (author_info_of padded_page) ''birthplace'' = Some ''Rome'' \<and>
   '' June 1, 1900 '' = '' '' @ ''June 1, 1900'' @ '' '' \<and>
   '' Rome '' = '' '' @ ''Rome'' @ '' '' \<and> list_all isspace '' '' \<and>
   py_strip ''June 1, 1900'' = ''June 1, 1900'' \<and> py_strip ''Rome'' = ''Rome'' \<and>
   \<not> isspace (hd ''June 1, 1900'') \<and> \<not> isspace (last ''Rome'') \<and>
   div_author_description padded_page = Some ''  A life.  '' \<and>
   map_of (author_info_of padded_page) ''description'' = Some ''  A life.  '' \<and>
   div_author_description born_year_page = None \<and>
   map_of (author_info_of born_year_page) ''description'' = Some []"
proof -
  have sel: "select_born padded_page = Some ''Born:  June 1, 1900  in  Rome ''"
    by (simp add: padded_page_def select_born_def)
  have colon: "contains '': '' ''Born:  June 1, 1900  in  Rome ''" by simp
  have sep: "contains '' in '' (py_split '': '' ''Born:  June 1, 1900  in  Rome '' ! 1)"
    by (simp add: py_split_def)
  have p0: "py_split '' in '' (py_split '': '' ''Born:  June 1, 1900  in  Rome '' ! 1) ! 0 =
      '' June 1, 1900 ''"
    by (simp add: py_split_def)
  have p1: "py_split '' in '' (py_split '': '' ''Born:  June 1, 1900  in  Rome '' ! 1) ! 1 =
      '' Rome ''"
    by (simp add: py_split_def)
  have d: "map_of (author_info_of padded_page) ''birthdate'' = Some ''June 1, 1900''"
    by (simp add: padded_page_def detail_eval)
  have p: "map_of (author_info_of padded_page) ''birthplace'' = Some ''Rome''"
    by (simp add: padded_page_def detail_eval)
  have t: "div_author_description padded_page = Some ''  A life.  ''"
    by (simp add: padded_page_def)
  have pad: "'' June 1, 1900 '' = '' '' @ ''June 1, 1900'' @ '' ''"
    "'' Rome '' = '' '' @ ''Rome'' @ '' ''" "list_all isspace '' ''"
    by (simp_all add: isspace_def)
  have ends: "\<not> isspace (hd ''June 1, 1900'')" "\<not> isspace (last ''Rome'')"
    by (simp_all add: isspace_def)
  note inst = birth_fields_stripped_description_verbatim
    [where sp = padded_page and born_text = "''Born:  June 1, 1900  in  Rome ''"
       and v = "''June 1, 1900''" and v' = "''Rome''" and t = "''  A life.  ''"]
  from inst d p t have kept: "py_strip ''June 1, 1900'' = ''June 1, 1900''"
    "py_strip ''Rome'' = ''Rome''"
    "map_of (author_info_of padded_page) ''description'' = Some ''  A life.  ''"
    by blast+
  have none: "div_author_description born_year_page = None"
    by (simp add: born_year_page_def)
  from birth_fields_stripped_description_verbatim [where sp = born_year_page] none
  have empty: "map_of (author_info_of born_year_page) ''description'' = Some []"
    by blast
  from sel colon sep p0 p1 d p pad ends t kept none empty show ?thesis
    by (intro conjI) assumption+
qed

lemma born_line_parts:
  assumes "\<not> contains '': '' rest"
  shows "py_split '': '' (''Born: '' @ rest) = [''Born'', rest]"
proof -
  have "py_split '': '' (''Born'' @ '': '' @ rest) = ''Born'' # py_split '': '' rest"
    by (rule py_split_first) simp_all
  with assms show ?thesis by (simp add: py_split_absent)
qed

text \<open>
  C5, as stated: in a "Born:" block the text after the label is split on the separator
  " in "; with the separator present the birth date is the text before it and the
  birthplace is the text after it. On the line "Born: May 1, 1850 in Paris in France" the
  text after the separator is "Paris in France", and the extractor gives "Paris".
\<close>

theorem born_line_split_counterexample:
  "select_born born_twice_page = Some ''Born: May 1, 1850 in Paris in France'' \<and>
   map_of (author_info_of born_twice_page) ''birthdate'' = Some ''May 1, 1850'' \<and>
   map_of (author_info_of born_twice_page) ''birthplace'' = Some ''Paris'' \<and>
   map_of (author_info_of born_twice_page) ''birthplace'' \<noteq> Some ''Paris in France''"
  by (simp add: born_twice_page_def detail_eval)

text \<open>
  C5, amended. For a detail document whose "Born:" block reads "Born: " followed by a
  remainder without a further ": ": if " in " does not occur in the remainder, the birth
  date is the remainder stripped of surrounding whitespace and there is no birthplace; if
  the remainder is \<open>a\<close>, " in ", \<open>b\<close> with this the first occurrence of the separator and
  none in \<open>b\<close>, the birth date is \<open>a\<close> stripped and the birthplace is \<open>b\<close> stripped. The two
  examples of the claim are the witness.
\<close>

theorem born_line_split_once:
  assumes "select_born sp = Some (''Born: '' @ rest)" and "\<not> contains '': '' rest"
  shows "(\<not> contains '' in '' rest \<longrightarrow>
            map_of (author_info_of sp) ''birthdate'' = Some (py_strip rest) \<and>
            map_of (author_info_of sp) ''birthplace'' = None) \<and>
         (rest = a @ '' in '' @ b \<and> \<not> contains '' in '' (a @ '' in'') \<and> \<not> contains '' in '' b \<longrightarrow>
            map_of (author_info_of sp) ''birthdate'' = Some (py_strip a) \<and>
            map_of (author_info_of sp) ''birthplace'' = Some (py_strip b))"
proof (intro conjI impI)
  note parts = born_line_parts [OF assms(2)]
  {
    assume "\<not> contains '' in '' rest"
    then have one: "py_split '' in '' rest = [rest]" by (simp add: py_split_absent)
    show "map_of (author_info_of sp) ''birthdate'' = Some (py_strip rest)"
      by (simp add: author_info_of_cases assms(1) parts one del: append.simps)
    show "map_of (author_info_of sp) ''birthplace'' = None"
      by (simp add: author_info_of_cases assms(1) parts one del: append.simps)
  }
  {
    assume h: "rest = a @ '' in '' @ b \<and> \<not> contains '' in '' (a @ '' in'') \<and> \<not> contains '' in '' b"
    have "py_split '' in '' (a @ '' in '' @ b) = a # py_split '' in '' b"
      using h by (intro py_split_first) simp_all
    with h have two: "py_split '' in '' rest = [a, b]" by (simp add: py_split_absent)
    show "map_of (author_info_of sp) ''birthdate'' = Some (py_strip a)"
      by (simp add: author_info_of_cases assms(1) parts two del: append.simps)
    show "map_of (author_info_of sp) ''birthplace'' = Some (py_strip b)"
      by (simp add: author_info_of_cases assms(1) parts two del: append.simps)
  }
qed

theorem born_line_split_once_witness:
  "map_of (author_info_of (demo_site ''https://quotes.toscrape.com/author/Ann'')) ''birthdate'' =
     Some ''September 16, 1977'' \<and>
   map_of (author_info_of (demo_site ''https://quotes.toscrape.com/author/Ann'')) ''birthplace'' =
     Some ''New York City'' \<and>
   map_of (author_info_of born_year_page) ''birthdate'' = Some ''1977'' \<and>
   map_of (author_info_of born_year_page) ''birthplace'' = None"
proof -
  have s1: "select_born (demo_site ''https://quotes.toscrape.com/author/Ann'') =
      Some (''Born: '' @ ''September 16, 1977 in New York City'')"
    by (simp add: demo_site_def select_born_def)
  have s2: "select_born born_year_page = Some (''Born: '' @ ''1977'')"
    by (simp add: born_year_page_def select_born_def)
  have c1: "\<not> contains '': '' ''September 16, 1977 in New York City''" by simp
  have c2: "\<not> contains '': '' ''1977''" by simp
  from born_line_split_once [OF s1 c1, of "''September 16, 1977''" "''New York City''"]
    born_line_split_once [OF s2 c2]
  show ?thesis by (simp add: py_strip_def isspace_def)
qed

section \<open>Claims about the shape of a record\<close>

lemma quote_info_fields:
  "map fst (quote_info quote_text author bio_href author_info) = fieldnames"
  "map_of (quote_info quote_text author bio_href author_info) ''Birthdate'' =
     Some (dict_get author_info ''birthdate'' [])"
  "map_of (quote_info quote_text author bio_href author_info) ''Birthplace'' =
     Some (dict_get author_info ''birthplace'' [])"
  "map_of (quote_info quote_text author bio_href author_info) ''Description'' =
     Some (dict_get author_info ''description'' [])"
  by (simp_all add: quote_info_def fieldnames_def)

lemma quotes_of_elements_fields:
  "quotes_of_elements nw urljoin els quotes w = Some (quotes', w') \<Longrightarrow>
   \<forall>q\<in>set quotes. map fst q = fieldnames \<Longrightarrow> \<forall>q\<in>set quotes'. map fst q = fieldnames"
proof (induction els arbitrary: quotes w)
  case Nil
  then show ?case by simp
next
  case (Cons el els)
  from Cons.prems(1) obtain author_info w1 where
    step: "quotes_of_elements nw urljoin els
             (quotes @ [quote_info (get_text (span_text el)) (get_text (small_author el))
                          (get_href (span_a el)) author_info]) w1 = Some (quotes', w')"
    by (auto simp: Let_def split: option.splits)
  show ?case
    by (rule Cons.IH [OF step]) (use Cons.prems(2) in \<open>auto simp: quote_info_fields(1)\<close>)
qed

lemma quotes_of_pages_fields:
  "quotes_of_pages nw urljoin url pages quotes w = Some (quotes', w') \<Longrightarrow>
   \<forall>q\<in>set quotes. map fst q = fieldnames \<Longrightarrow> \<forall>q\<in>set quotes'. map fst q = fieldnames"
proof (induction pages arbitrary: quotes w)
  case Nil
  then show ?case by simp
next
  case (Cons page pages)
  from Cons.prems(1) obtain sp :: soup and w1 quotes1 w2 where
    els: "quotes_of_elements nw urljoin (div_quote sp) quotes w1 = Some (quotes1, w2)"
    and rest: "quotes_of_pages nw urljoin url pages quotes1 w2 = Some (quotes', w')"
    by (auto split: option.splits)
  from quotes_of_elements_fields [OF els Cons.prems(2)] Cons.IH [OF rest] show ?case by blast
qed

text \<open>
  C7. Once the detail document is fetched, the detail extractor returns a dictionary
  whatever blocks the document lacks. For every document the record built from it has the
  six fields in the order of the columns, and each enrichment field is the value of its
  key in the dictionary, or the empty string when the dictionary has no such key. The
  birth date is unresolved exactly when there is no "Born:" block or its text has no
  ": "; the birthplace exactly when, besides, the text after the label has no " in ".
  Without a description block the description is the empty string. Every record a crawl
  returns has the six fields.
\<close>

theorem detail_extractor_total_six_fields:
  "(make_request nw url w = Some (sp, w') \<longrightarrow>
      scrape_author_info nw url w = Some (author_info_of sp, w')) \<and>
   map fst (quote_info quote_text author bio_href (author_info_of sp)) = fieldnames \<and>
   map_of (quote_info quote_text author bio_href (author_info_of sp)) ''Birthdate'' =
     Some (case map_of (author_info_of sp) ''birthdate'' of None \<Rightarrow> [] | Some v \<Rightarrow> v) \<and>
   map_of (quote_info quote_text author bio_href (author_info_of sp)) ''Birthplace'' =
     Some (case map_of (author_info_of sp) ''birthplace'' of None \<Rightarrow> [] | Some v \<Rightarrow> v) \<and>
   map_of (quote_info quote_text author bio_href (author_info_of sp)) ''Description'' =
     Some (case map_of (author_info_of sp) ''description'' of None \<Rightarrow> [] | Some v \<Rightarrow> v) \<and>
   (map_of (author_info_of sp) ''birthdate'' = None \<longrightarrow>
      map_of (quote_info quote_text author bio_href (author_info_of sp)) ''Birthdate'' = Some []) \<and>
   (map_of (author_info_of sp) ''birthplace'' = None \<longrightarrow>
      map_of (quote_info quote_text author bio_href (author_info_of sp)) ''Birthplace'' = Some []) \<and>
   (map_of (author_info_of sp) ''birthdate'' = None) =
     (case select_born sp of None \<Rightarrow> True | Some born_text \<Rightarrow> \<not> contains '': '' born_text) \<and>
   (map_of (author_info_of sp) ''birthplace'' = None) =
     (case select_born sp of
        None \<Rightarrow> True
      | Some born_text \<Rightarrow>
          \<not> contains '': '' born_text \<or> \<not> contains '' in '' (py_split '': '' born_text ! 1)) \<and>
   (select_born sp = None \<longrightarrow>
      map_of (quote_info quote_text author bio_href (author_info_of sp)) ''Birthdate'' = Some [] \<and>
      map_of (quote_info quote_text author bio_href (author_info_of sp)) ''Birthplace'' = Some []) \<and>
   (div_author_description sp = None \<longrightarrow>
      map_of (quote_info quote_text author bio_href (author_info_of sp)) ''Description'' = Some []) \<and>
   (scrape_quotes nw urljoin base num_pages w = Some (quotes, w'') \<longrightarrow>
      (\<forall>q\<in>set quotes. map fst q = fieldnames))"
proof -
  let ?ai = "author_info_of sp"
  let ?R = "quote_info quote_text author bio_href ?ai"
  have fetched: "scrape_author_info nw url w = Some (?ai, w')"
    if "make_request nw url w = Some (sp, w')"
    using that by (simp add: scrape_author_info_def)
  have names: "map fst ?R = fieldnames" by (rule quote_info_fields)
  have date: "map_of ?R ''Birthdate'' =
      Some (case map_of ?ai ''birthdate'' of None \<Rightarrow> [] | Some v \<Rightarrow> v)"
    by (simp add: quote_info_fields dict_get_def)
  have place: "map_of ?R ''Birthplace'' =
      Some (case map_of ?ai ''birthplace'' of None \<Rightarrow> [] | Some v \<Rightarrow> v)"
    by (simp add: quote_info_fields dict_get_def)
  have descr: "map_of ?R ''Description'' =
      Some (case map_of ?ai ''description'' of None \<Rightarrow> [] | Some v \<Rightarrow> v)"
    by (simp add: quote_info_fields dict_get_def)
  have no_date: "map_of ?R ''Birthdate'' = Some []" if "map_of ?ai ''birthdate'' = None"
    using that by (simp add: date)
  have no_place: "map_of ?R ''Birthplace'' = Some []" if "map_of ?ai ''birthplace'' = None"
    using that by (simp add: place)
  have no_block: "map_of ?R ''Birthdate'' = Some [] \<and> map_of ?R ''Birthplace'' = Some []"
    if "select_born sp = None"
    using that author_info_absent [of sp] by (simp add: date place)
  have no_text: "map_of ?R ''Description'' = Some []" if "div_author_description sp = None"
    using that by (simp add: descr author_info_description get_text_def)
  have crawl: "\<forall>q\<in>set quotes. map fst q = fieldnames"
    if "scrape_quotes nw urljoin base num_pages w = Some (quotes, w'')"
    using that quotes_of_pages_fields [of nw urljoin base "[1..num_pages]" "[]" w quotes w'']
    by (simp add: scrape_quotes_def)
  from fetched names date place descr no_date no_place no_block no_text crawl
    author_info_absent [of sp]
  show ?thesis by blast
qed

theorem detail_extractor_total_six_fields_witness:
  "make_request (always demo_site) BASE_URL w0 =
     Some (blank_page, \<lparr>tick = 1, calls = [BASE_URL], sleeps = []\<rparr>) \<and>
   scrape_author_info (always demo_site) BASE_URL w0 =
     Some (author_info_of blank_page, \<lparr>tick = 1, calls = [BASE_URL], sleeps = []\<rparr>) \<and>
   select_born blank_page = None \<and> div_author_description blank_page = None \<and>
   quote_info ''Or not'' [] [] (author_info_of blank_page) =
     [(''Quote'', ''Or not''), (''Author'', []), (''Bio Href'', []),
      (''Birthdate'', []), (''Birthplace'', []), (''Description'', [])] \<and>
   select_born born_year_page = Some ''Born: 1977'' \<and>
   map_of (author_info_of born_year_page) ''birthdate'' = Some ''1977'' \<and>
   map_of (author_info_of born_year_page) ''birthplace'' = None \<and>
   map_of (quote_info ''Or not'' [] [] (author_info_of born_year_page)) ''Birthdate'' = Some ''1977'' \<and>
   map_of (quote_info ''Or not'' [] [] (author_info_of born_year_page)) ''Birthplace'' = Some [] \<and>
   map_option (map (map fst) \<circ> fst) (scrape_quotes (always demo_site) urljoin_site BASE_URL 1 w0) =
     Some [fieldnames, fieldnames]"
proof -
  let ?w1 = "\<lparr>tick = 1, calls = [BASE_URL], sleeps = []\<rparr>"
  have page: "demo_site BASE_URL = blank_page" by (simp add: demo_site_def BASE_URL_def)
  have fetch: "make_request (always demo_site) BASE_URL w0 = Some (blank_page, ?w1)"
    by (simp add: make_request_always page w0_def)
  have born: "select_born blank_page = None" by (simp add: select_born_def blank_page_def)
  have descr: "div_author_description blank_page = None" by (simp add: blank_page_def)
  obtain w'' where crawl:
    "scrape_quotes (always demo_site) urljoin_site BASE_URL 1 w0 =
       Some (concat (map (page_records demo_site urljoin_site BASE_URL) [1..1]), w'')"
    using scrape_quotes_serves [OF serves_always] by blast
  have two: "concat (map (page_records demo_site urljoin_site BASE_URL) [1..1]) =
      [record_of demo_site urljoin_site full_entry, record_of demo_site urljoin_site bare_entry]"
    by (simp add: page_records_def page_url_def BASE_URL_def str_int_def str_nat.simps
        digit_char_def demo_site_def)
  note inst = detail_extractor_total_six_fields
    [where nw = "always demo_site" and url = BASE_URL and w = w0 and sp = blank_page
       and w' = ?w1 and quote_text = "''Or not''" and author = "[]" and bio_href = "[]"
       and urljoin = urljoin_site and base = BASE_URL and num_pages = 1
       and quotes = "concat (map (page_records demo_site urljoin_site BASE_URL) [1..1])"
       and w'' = w'']
  note year = detail_extractor_total_six_fields
    [where nw = "always demo_site" and url = BASE_URL and w = w0 and sp = born_year_page
       and w' = ?w1 and quote_text = "''Or not''" and author = "[]" and bio_href = "[]"
       and urljoin = urljoin_site and base = BASE_URL and num_pages = 1
       and quotes = "concat (map (page_records demo_site urljoin_site BASE_URL) [1..1])"
       and w'' = w'']
  have shape: "quote_info ''Or not'' [] [] (author_info_of blank_page) =
     [(''Quote'', ''Or not''), (''Author'', []), (''Bio Href'', []),
      (''Birthdate'', []), (''Birthplace'', []), (''Description'', [])]"
    by (simp add: quote_info_def dict_get_def blank_page_def detail_eval)
  have sel: "select_born born_year_page = Some ''Born: 1977''"
    by (simp add: select_born_def born_year_page_def)
  have yd: "map_of (author_info_of born_year_page) ''birthdate'' = Some ''1977''"
    by (simp add: born_year_page_def detail_eval)
  have yp: "map_of (author_info_of born_year_page) ''birthplace'' = None"
    by (simp add: born_year_page_def detail_eval)
  from year yd yp have yr:
    "map_of (quote_info ''Or not'' [] [] (author_info_of born_year_page)) ''Birthdate'' = Some ''1977''"
    "map_of (quote_info ''Or not'' [] [] (author_info_of born_year_page)) ''Birthplace'' = Some []"
    by simp_all
  from inst crawl have "\<forall>q\<in>set (concat (map (page_records demo_site urljoin_site BASE_URL) [1..1])).
      map fst q = fieldnames"
    by blast
  then have "map_option (map (map fst) \<circ> fst)
      (scrape_quotes (always demo_site) urljoin_site BASE_URL 1 w0) = Some [fieldnames, fieldnames]"
    unfolding crawl two by simp
  with inst fetch born descr shape sel yd yp yr show ?thesis by blast
qed

section \<open>Claims about the fetcher\<close>

lemma exponential_sleep_doubles:
  "exponential_sleep (Suc n) = min (2 * exponential_sleep n) 10000"
  by (simp add: exponential_sleep_def Let_def min_def)

text \<open>
  C3, as stated: for every URL the fetcher makes a bounded number of attempts (5, say) and
  after the last failed one it stops and reports a fetch error. On a network that never
  answers the fetcher never returns, with an error or otherwise; on one that answers from
  the sixth request on it returns the page after five failed attempts and five waits.
\<close>

theorem make_request_unbounded_counterexample:
  "make_request net_down BASE_URL w0 = None \<and>
   make_request (net_up_from 5) BASE_URL w0 =
     Some (blank_page, \<lparr>tick = 6, calls = [BASE_URL], sleeps = [4000, 8000, 10000, 10000, 10000]\<rparr>)"
proof
  show "make_request net_down BASE_URL w0 = None"
    by (simp add: make_request_def net_down_def retry_call_never)
  have "retry_call (net_up_from 5) BASE_URL 1 (w0\<lparr>calls := calls w0 @ [BASE_URL]\<rparr>) =
      Some (blank_page, (w0\<lparr>calls := calls w0 @ [BASE_URL]\<rparr>)
        \<lparr>tick := Suc (tick (w0\<lparr>calls := calls w0 @ [BASE_URL]\<rparr>) + 5),
         sleeps := sleeps (w0\<lparr>calls := calls w0 @ [BASE_URL]\<rparr>) @ map exponential_sleep [1..<1 + 5]\<rparr>)"
    by (rule retry_call_first_success) (simp_all add: net_up_from_def w0_def)
  then show "make_request (net_up_from 5) BASE_URL w0 =
     Some (blank_page, \<lparr>tick = 6, calls = [BASE_URL], sleeps = [4000, 8000, 10000, 10000, 10000]\<rparr>)"
    by (simp add: make_request_def w0_def exponential_sleep_def upt_rec)
qed

text \<open>
  C3, amended. For every URL the fetcher retries until the first attempt that succeeds,
  with no bound on the number of attempts: if \<open>k\<close> attempts fail and the next one
  succeeds, it returns that response after \<open>k + 1\<close> requests, whatever \<open>k\<close> is. It has
  waited after each failed attempt, after the \<open>n\<close>-th for 2000 times \<open>2 ^ n\<close> milliseconds
  capped at 10000: each wait is twice the one before, up to the cap.
\<close>

theorem make_request_retries_until_success:
  assumes "\<forall>i<k. nw (tick w + i) url = None" and "nw (tick w + k) url = Some sp"
  shows "make_request nw url w =
           Some (sp, w\<lparr>tick := tick w + k + 1, calls := calls w @ [url],
                      sleeps := sleeps w @ map exponential_sleep [1..<Suc k]\<rparr>) \<and>
         (\<forall>n. exponential_sleep n = min (2000 * 2 ^ n) 10000 \<and>
              exponential_sleep (Suc n) = min (2 * exponential_sleep n) 10000)"
proof
  let ?w = "w\<lparr>calls := calls w @ [url]\<rparr>"
  have "retry_call nw url 1 ?w =
      Some (sp, ?w\<lparr>tick := Suc (tick ?w + k), sleeps := sleeps ?w @ map exponential_sleep [1..<1 + k]\<rparr>)"
    by (rule retry_call_first_success) (use assms in simp_all)
  then show "make_request nw url w =
           Some (sp, w\<lparr>tick := tick w + k + 1, calls := calls w @ [url],
                      sleeps := sleeps w @ map exponential_sleep [1..<Suc k]\<rparr>)"
    by (simp add: make_request_def)
  show "\<forall>n. exponential_sleep n = min (2000 * 2 ^ n) 10000 \<and>
              exponential_sleep (Suc n) = min (2 * exponential_sleep n) 10000"
    using exponential_sleep_doubles by (simp add: exponential_sleep_def Let_def min_def)
qed

theorem make_request_retries_until_success_witness:
  "net_up_from 7 (tick w0 + 6) BASE_URL = None \<and>
   net_up_from 7 (tick w0 + 7) BASE_URL = Some blank_page \<and>
   make_request (net_up_from 7) BASE_URL w0 =
     Some (blank_page, \<lparr>tick = 8, calls = [BASE_URL],
             sleeps = [4000, 8000, 10000, 10000, 10000, 10000, 10000]\<rparr>)"
proof -
  have fails: "\<forall>i<7. net_up_from 7 (tick w0 + i) BASE_URL = None"
    by (simp add: net_up_from_def w0_def)
  have hit: "net_up_from 7 (tick w0 + 7) BASE_URL = Some blank_page"
    by (simp add: net_up_from_def w0_def)
  from make_request_retries_until_success
      [where nw = "net_up_from 7" and w = w0 and k = 7 and url = BASE_URL and sp = blank_page]
    fails hit show ?thesis
    by (simp add: w0_def exponential_sleep_def upt_rec net_up_from_def)
qed

section \<open>Claims about the crawl\<close>

lemmas crawl_eval = page_records_def page_calls_def record_of_def detail_url_def page_url_def
  str_int_def str_nat.simps digit_char_def demo_site_def urljoin_site_def BASE_URL_def
  get_text_def get_href_def dict_get_def quote_info_def full_entry_def bare_entry_def
  last_entry_def blank_page_def

lemma quotes_of_pages_dead:
  "page \<in> set pages \<Longrightarrow> \<forall>t. nw t (page_url url page) = None \<Longrightarrow>
   quotes_of_pages nw urljoin url pages quotes w = None"
proof (induction pages arbitrary: quotes w)
  case Nil
  then show ?case by simp
next
  case (Cons p pages)
  show ?case
  proof (cases "p = page")
    case True
    with Cons.prems(2) have "make_request nw (page_url url p) w = None"
      by (simp add: make_request_def retry_call_never)
    then show ?thesis by simp
  next
    case False
    with Cons.prems have "page \<in> set pages" by simp
    from Cons.IH [OF this Cons.prems(2)] show ?thesis
      by (simp split: option.splits)
  qed
qed

lemma record_of_stub:
  "map_of (record_of site urljoin el) ''Quote'' = Some (get_text (span_text el))"
  "map_of (record_of site urljoin el) ''Author'' = Some (get_text (small_author el))"
  "map_of (record_of site urljoin el) ''Bio Href'' = Some (get_href (span_a el))"
  by (simp_all add: record_of_def quote_info_def)

text \<open>
  C6, as stated: a page count of zero or less is a fatal configuration error, reported
  before any fetch. With a page count of zero, even on a network that never answers, the
  crawl returns the empty list and leaves the world as it was.
\<close>

theorem no_pages_counterexample:
  "scrape_quotes net_down urljoin_site BASE_URL 0 w0 = Some ([], w0)"
  by (simp add: scrape_quotes_def)

text \<open>
  C6, amended. A page count of zero or less is not an error: the crawl returns the empty
  sequence at once, without any fetch.
\<close>

theorem no_pages_empty_result:
  "num_pages \<le> 0 \<Longrightarrow> scrape_quotes nw urljoin url num_pages w = Some ([], w)"
  by (simp add: scrape_quotes_def)

theorem no_pages_empty_result_witness:
  "(- 2 :: int) \<le> 0 \<and> scrape_quotes (always demo_site) urljoin_site BASE_URL (- 2) w0 = Some ([], w0)"
  using no_pages_empty_result [of "- 2" "always demo_site" urljoin_site BASE_URL w0] by simp

text \<open>
  C1, as stated: an entry block without quote text or without author name is left out of
  the output. The second entry of page 1 of the example site has no author element, and
  the crawl returns a record for it, with the empty string as author.
\<close>

theorem entry_without_author_counterexample:
  "small_author bare_entry = None \<and>
   map_option fst (scrape_quotes (always demo_site) urljoin_site BASE_URL 1 w0) =
     Some [[(''Quote'', ''To be''), (''Author'', ''Ann''), (''Bio Href'', ''/author/Ann''),
            (''Birthdate'', ''September 16, 1977''), (''Birthplace'', ''New York City''),
            (''Description'', '' Wrote. '')],
           [(''Quote'', ''Or not''), (''Author'', []), (''Bio Href'', []),
            (''Birthdate'', []), (''Birthplace'', []), (''Description'', [])]]"
proof -
  obtain w' where "scrape_quotes (always demo_site) urljoin_site BASE_URL 1 w0 =
      Some (concat (map (page_records demo_site urljoin_site BASE_URL) [1..1]), w')"
    using scrape_quotes_serves [OF serves_always] by blast
  then show ?thesis
    by (simp add: crawl_eval detail_eval)
qed

text \<open>
  C1, amended. On a served site the crawl returns one record for every entry block of
  every page, in order, and drops none: the quote text and the author of a record are
  those of its entry block, and the empty string where the block lacks the element.
\<close>

theorem every_entry_emitted:
  assumes "serves nw site"
  shows "\<exists>quotes w'. scrape_quotes nw urljoin url num_pages w = Some (quotes, w') \<and>
           map (\<lambda>q. (map_of q ''Quote'', map_of q ''Author'')) quotes =
             concat (map (\<lambda>page. map (\<lambda>el. (Some (get_text (span_text el)),
                                             Some (get_text (small_author el))))
                                   (div_quote (site (page_url url page))))
                      [1..num_pages]) \<and>
           get_text None = []"
proof -
  obtain w' where crawl: "scrape_quotes nw urljoin url num_pages w =
      Some (concat (map (page_records site urljoin url) [1..num_pages]), w')"
    using scrape_quotes_serves [OF assms] by blast
  have "map (\<lambda>q. (map_of q ''Quote'', map_of q ''Author''))
          (concat (map (page_records site urljoin url) pages)) =
        concat (map (\<lambda>page. map (\<lambda>el. (Some (get_text (span_text el)),
                                        Some (get_text (small_author el))))
                              (div_quote (site (page_url url page)))) pages)" for pages
    by (induction pages) (simp_all add: page_records_def record_of_stub)
  with crawl show ?thesis by (simp add: get_text_def)
qed

theorem every_entry_emitted_witness:
  "\<exists>quotes w'. scrape_quotes (flaky demo_site) urljoin_site BASE_URL 1 w0 = Some (quotes, w') \<and>
      map (\<lambda>q. (map_of q ''Quote'', map_of q ''Author'')) quotes =
        [(Some ''To be'', Some ''Ann''), (Some ''Or not'', Some [])]"
proof -
  from every_entry_emitted [OF serves_flaky, of demo_site urljoin_site BASE_URL 1 w0]
  obtain quotes w' where
    "scrape_quotes (flaky demo_site) urljoin_site BASE_URL 1 w0 = Some (quotes, w')"
    "map (\<lambda>q. (map_of q ''Quote'', map_of q ''Author'')) quotes =
       concat (map (\<lambda>page. map (\<lambda>el. (Some (get_text (span_text el)),
                                       Some (get_text (small_author el))))
                             (div_quote (demo_site (page_url BASE_URL page)))) [1..1])"
    by blast
  moreover have "concat (map (\<lambda>page. map (\<lambda>el. (Some (get_text (span_text el)),
                                       Some (get_text (small_author el))))
                             (div_quote (demo_site (page_url BASE_URL page)))) [1..1]) =
      [(Some ''To be'', Some ''Ann''), (Some ''Or not'', Some [])]"
    by (simp add: crawl_eval)
  ultimately show ?thesis by auto
qed

text \<open>
  C2, as stated: when the fetch of one page fails, the crawl skips the page and returns the
  records of the others. With page 2 of 3 failing at every attempt the crawl never
  returns, though without failures it does.
\<close>

theorem page_down_counterexample:
  "scrape_quotes (always demo_site) urljoin_site BASE_URL 3 w0 \<noteq> None \<and>
   scrape_quotes net_page2_down urljoin_site BASE_URL 3 w0 = None"
proof (intro conjI)
  have dead: "\<forall>t. net_page2_down t (page_url BASE_URL 2) = None"
    by (simp add: net_page2_down_def page_url_def BASE_URL_def str_int_def str_nat.simps digit_char_def)
  show "scrape_quotes (always demo_site) urljoin_site BASE_URL 3 w0 \<noteq> None"
    using scrape_quotes_serves [OF serves_always, of demo_site urljoin_site BASE_URL 3 w0] by auto
  have "(2::int) \<in> set [1..3]" by simp
  from quotes_of_pages_dead
    [where page = 2 and pages = "[1..3]" and nw = net_page2_down and url = BASE_URL, OF this dead]
  show "scrape_quotes net_page2_down urljoin_site BASE_URL 3 w0 = None"
    by (simp only: scrape_quotes_def)
qed

text \<open>
  C2, amended. When every failure is transient (the network serves the site), the crawl
  over pages 1 to \<open>num_pages\<close> returns, its records are those of the run without
  failures, and it has fetched every page from 1 to \<open>num_pages\<close>: no page is skipped.
\<close>

theorem transient_failures_change_nothing:
  assumes "serves nw site"
  shows "\<exists>quotes w'. scrape_quotes nw urljoin url num_pages w = Some (quotes, w') \<and>
           map_option fst (scrape_quotes (always site) urljoin url num_pages w) = Some quotes \<and>
           (\<forall>page\<in>set [1..num_pages]. page_url url page \<in> set (calls w'))"
proof -
  obtain w' where crawl: "scrape_quotes nw urljoin url num_pages w =
      Some (concat (map (page_records site urljoin url) [1..num_pages]), w')"
    and log: "calls w' = calls w @ concat (map (page_calls site urljoin url) [1..num_pages])"
    using scrape_quotes_serves [OF assms] by blast
  obtain w'' where "scrape_quotes (always site) urljoin url num_pages w =
      Some (concat (map (page_records site urljoin url) [1..num_pages]), w'')"
    using scrape_quotes_serves [OF serves_always] by blast
  moreover have "\<forall>page\<in>set [1..num_pages]. page_url url page \<in> set (calls w')"
    unfolding log by (auto simp: page_calls_def)
  ultimately show ?thesis using crawl by simp
qed

theorem transient_failures_change_nothing_witness:
  "\<exists>quotes w'. scrape_quotes (flaky demo_site) urljoin_site BASE_URL 2 w0 = Some (quotes, w') \<and>
      map_option fst (scrape_quotes (always demo_site) urljoin_site BASE_URL 2 w0) = Some quotes \<and>
      ''https://quotes.toscrape.com/page/1/'' \<in> set (calls w') \<and>
      ''https://quotes.toscrape.com/page/2/'' \<in> set (calls w')"
proof -
  have p1: "page_url BASE_URL 1 = ''https://quotes.toscrape.com/page/1/''"
    by (simp add: page_url_def BASE_URL_def str_int_def str_nat.simps digit_char_def)
  have p2: "page_url BASE_URL 2 = ''https://quotes.toscrape.com/page/2/''"
    by (simp add: page_url_def BASE_URL_def str_int_def str_nat.simps digit_char_def)
  have pages: "set [1..2::int] = {1, 2}" by (simp add: upto_rec1)
  from transient_failures_change_nothing [OF serves_flaky, of demo_site urljoin_site BASE_URL 2 w0]
  show ?thesis unfolding pages using p1 p2 by fastforce
qed

text \<open>
  C4, as stated: the detail page is fetched only for a stub whose detail link is not
  empty. The second entry of page 1 of the example site has no link; its detail link is
  the empty string and the fetcher is called for it, with the base URL.
\<close>

theorem empty_link_fetched_counterexample:
  "get_href (span_a bare_entry) = [] \<and>
   map_option (calls \<circ> snd) (scrape_quotes (always demo_site) urljoin_site BASE_URL 1 w0) =
     Some [''https://quotes.toscrape.com/page/1/'',
           ''https://quotes.toscrape.com/author/Ann'',
           ''https://quotes.toscrape.com'']"
proof -
  obtain w' where "scrape_quotes (always demo_site) urljoin_site BASE_URL 1 w0 =
      Some (concat (map (page_records demo_site urljoin_site BASE_URL) [1..1]), w')"
    and "calls w' = calls w0 @ concat (map (page_calls demo_site urljoin_site BASE_URL) [1..1])"
    using scrape_quotes_serves [OF serves_always] by blast
  then show ?thesis
    by (simp add: page_calls_def detail_url_def page_url_def str_int_def str_nat.simps
        digit_char_def demo_site_def urljoin_site_def BASE_URL_def get_href_def dict_get_def
        full_entry_def bare_entry_def w0_def)
qed

text \<open>
  C4, amended. An entry block without link element, or whose link has no \<^verbatim>\<open>href\<close>,
  gives the empty string as detail link, and the detail page is fetched for every stub,
  empty link or not: on a served site the fetcher is called, page by page, with the page
  URL and then, for each entry block in order, with its detail link resolved against the
  base URL.
\<close>

theorem every_stub_fetched:
  assumes "serves nw site"
  shows "\<exists>quotes w'. scrape_quotes nw urljoin url num_pages w = Some (quotes, w') \<and>
           calls w' = calls w @
             concat (map (\<lambda>page. page_url url page #
                            map (\<lambda>el. urljoin BASE_URL (get_href (span_a el)))
                              (div_quote (site (page_url url page))))
                      [1..num_pages]) \<and>
           map (\<lambda>q. map_of q ''Bio Href'') quotes =
             concat (map (\<lambda>page. map (\<lambda>el. Some (get_href (span_a el)))
                                   (div_quote (site (page_url url page))))
                      [1..num_pages]) \<and>
           get_href None = [] \<and> (\<forall>attrs. map_of attrs ''href'' = None \<longrightarrow> get_href (Some attrs) = [])"
proof -
  obtain w' where crawl: "scrape_quotes nw urljoin url num_pages w =
      Some (concat (map (page_records site urljoin url) [1..num_pages]), w')"
    and log: "calls w' = calls w @ concat (map (page_calls site urljoin url) [1..num_pages])"
    using scrape_quotes_serves [OF assms] by blast
  have calls_eq: "page_calls site urljoin url =
      (\<lambda>page. page_url url page #
                map (\<lambda>el. urljoin BASE_URL (get_href (span_a el)))
                  (div_quote (site (page_url url page))))"
    by (simp add: page_calls_def detail_url_def fun_eq_iff)
  have hrefs: "map (\<lambda>q. map_of q ''Bio Href'') (concat (map (page_records site urljoin url) pages)) =
        concat (map (\<lambda>page. map (\<lambda>el. Some (get_href (span_a el)))
                              (div_quote (site (page_url url page)))) pages)" for pages
    by (induction pages) (simp_all add: page_records_def record_of_stub)
  from crawl log hrefs show ?thesis
    by (simp add: calls_eq get_href_def dict_get_def)
qed

theorem every_stub_fetched_witness:
  "\<exists>quotes w'. scrape_quotes (flaky demo_site) urljoin_site BASE_URL 2 w0 = Some (quotes, w') \<and>
      calls w' = [''https://quotes.toscrape.com/page/1/'',
                  ''https://quotes.toscrape.com/author/Ann'',
                  ''https://quotes.toscrape.com'',
                  ''https://quotes.toscrape.com/page/2/'',
                  ''https://quotes.toscrape.com''] \<and>
      map (\<lambda>q. map_of q ''Bio Href'') quotes = [Some ''/author/Ann'', Some [], Some []]"
proof -
  from every_stub_fetched [OF serves_flaky, of demo_site urljoin_site BASE_URL 2 w0]
  obtain quotes w' where
    "scrape_quotes (flaky demo_site) urljoin_site BASE_URL 2 w0 = Some (quotes, w')"
    "calls w' = calls w0 @
       concat (map (\<lambda>page. page_url BASE_URL page #
                      map (\<lambda>el. urljoin_site BASE_URL (get_href (span_a el)))
                        (div_quote (demo_site (page_url BASE_URL page))))
                [1..2])"
    "map (\<lambda>q. map_of q ''Bio Href'') quotes =
       concat (map (\<lambda>page. map (\<lambda>el. Some (get_href (span_a el)))
                             (div_quote (demo_site (page_url BASE_URL page))))
                [1..2])"
    by blast
  then have "scrape_quotes (flaky demo_site) urljoin_site BASE_URL 2 w0 = Some (quotes, w') \<and>
      calls w' = [''https://quotes.toscrape.com/page/1/'',
                  ''https://quotes.toscrape.com/author/Ann'',
                  ''https://quotes.toscrape.com'',
                  ''https://quotes.toscrape.com/page/2/'',
                  ''https://quotes.toscrape.com''] \<and>
      map (\<lambda>q. map_of q ''Bio Href'') quotes = [Some ''/author/Ann'', Some [], Some []]"
    by (simp add: crawl_eval w0_def upto_rec1)
  then show ?thesis by (intro exI)
qed

text \<open>
  C8. On a served site the records of a crawl are those of page 1, then page 2, up to the
  last page, and within a page those of its entry blocks in document order; two crawls of
  the same site return the same records, whatever the failures and the worlds they start
  in.
\<close>

theorem records_in_page_then_document_order:
  assumes "serves nw site" and "serves nw' site"
  shows "map_option fst (scrape_quotes nw urljoin url num_pages w) =
           Some (concat (map (\<lambda>page. map (record_of site urljoin)
                                        (div_quote (site (page_url url page))))
                           [1..num_pages])) \<and>
         map_option fst (scrape_quotes nw' urljoin url num_pages w') =
           map_option fst (scrape_quotes nw urljoin url num_pages w)"
proof -
  have key: "map_option fst (scrape_quotes n urljoin url num_pages v) =
          Some (concat (map (\<lambda>page. map (record_of site urljoin)
                                       (div_quote (site (page_url url page))))
                          [1..num_pages]))"
    if "serves n site" for n v
    using scrape_quotes_serves [OF that, of urljoin url num_pages v]
    by (auto simp: page_records_def [abs_def])
  note first = key [OF assms(1), of w] and second = key [OF assms(2), of w']
  show ?thesis by (simp only: first second simp_thms)
qed

theorem records_in_page_then_document_order_witness:
  "map_option (map (\<lambda>q. map_of q ''Quote'') \<circ> fst)
     (scrape_quotes (flaky demo_site) urljoin_site BASE_URL 2 w0) =
     Some [Some ''To be'', Some ''Or not'', Some ''Fin''] \<and>
   map_option fst (scrape_quotes (always demo_site) urljoin_site BASE_URL 2 w0) =
     map_option fst (scrape_quotes (flaky demo_site) urljoin_site BASE_URL 2 w0)"
proof -
  have "concat (map (\<lambda>page. map (record_of demo_site urljoin_site)
                               (div_quote (demo_site (page_url BASE_URL page)))) [1..2]) =
        [record_of demo_site urljoin_site full_entry, record_of demo_site urljoin_site bare_entry,
         record_of demo_site urljoin_site last_entry]"
    by (simp add: page_url_def str_int_def str_nat.simps digit_char_def demo_site_def
        BASE_URL_def upto_rec1)
  with records_in_page_then_document_order
    [where nw = "flaky demo_site" and nw' = "always demo_site" and site = demo_site
       and urljoin = urljoin_site and url = BASE_URL and num_pages = 2 and w = w0 and w' = w0,
     OF serves_flaky serves_always]
  have "map_option fst (scrape_quotes (flaky demo_site) urljoin_site BASE_URL 2 w0) =
        Some [record_of demo_site urljoin_site full_entry, record_of demo_site urljoin_site bare_entry,
              record_of demo_site urljoin_site last_entry]"
    and same: "map_option fst (scrape_quotes (always demo_site) urljoin_site BASE_URL 2 w0) =
        map_option fst (scrape_quotes (flaky demo_site) urljoin_site BASE_URL 2 w0)"
    by simp_all
  then have "map_option (map (\<lambda>q. map_of q ''Quote'') \<circ> fst)
     (scrape_quotes (flaky demo_site) urljoin_site BASE_URL 2 w0) =
     Some [Some ''To be'', Some ''Or not'', Some ''Fin'']"
    by (cases "scrape_quotes (flaky demo_site) urljoin_site BASE_URL 2 w0")
       (auto simp: record_of_stub get_text_def full_entry_def bare_entry_def last_entry_def)
  with same show ?thesis by (intro conjI)
qed

end
